theory Spec2Isabelle
  imports Main "HOL-Library.AList" "HOL-Library.Char_ord" "HOL-Library.List_Lexorder"
begin

section \<open>PixelSentinel: the file-state reconciliation pass\<close>

text \<open>
  A shallow embedding of \<^verbatim>\<open>pixelsentinel.py\<close>. A table of the SQLite database is the
  list of its rows in \<^verbatim>\<open>rowid\<close> order (the order in which a table scan returns them); a
  new row is appended. Timestamps are the modification times of the files; the
  program only compares them for equality, so they are integers here. Paths are POSIX paths
  (\<^verbatim>\<open>os.sep = '/'\<close>).
\<close>

subsection \<open>Path functions of the Python library (posixpath)\<close>

definition sep :: char where
  "sep = CHR ''/''"

text \<open>\<^verbatim>\<open>str.split(sep)\<close>: always at least one component.\<close>

fun split :: "char \<Rightarrow> string \<Rightarrow> string list" where
  "split s [] = [[]]"
| "split s (c # cs) =
     (if c = s then [] # split s cs
      else (case split s cs of [] \<Rightarrow> [[c]] | w # ws \<Rightarrow> (c # w) # ws))"

text \<open>\<^verbatim>\<open>sep.join(comps)\<close>.\<close>

fun join :: "char \<Rightarrow> string list \<Rightarrow> string" where
  "join s [] = []"
| "join s [w] = w"
| "join s (w # v # ws) = w @ s # join s (v # ws)"

text \<open>\<^verbatim>\<open>s.rstrip('/')\<close>.\<close>

definition rstrip :: "char \<Rightarrow> string \<Rightarrow> string" where
  "rstrip s p = rev (dropWhile (\<lambda>c. c = s) (rev p))"

text \<open>
  \<^verbatim>\<open>posixpath.dirname\<close>: the part up to and including the last separator, with the trailing
  separators removed unless it consists of separators only.
\<close>

definition dirname :: "string \<Rightarrow> string" where
  "dirname p =
     (let head = rev (dropWhile (\<lambda>c. \<not> c = sep) (rev p))
      in if head = [] then head
         else if head = replicate (length head) sep then head
         else rstrip sep head)"

text \<open>One round of the loop of \<^verbatim>\<open>posixpath.normpath\<close> over the components.\<close>

definition norm_step :: "nat \<Rightarrow> string \<Rightarrow> string list \<Rightarrow> string list" where
  "norm_step initial_slashes c new_comps =
     (if c = [] then new_comps
      else if c = ''.'' then new_comps
      else if \<not> c = ''..'' then new_comps @ [c]
      else if initial_slashes = 0 \<and> new_comps = [] then new_comps @ [c]
      else if new_comps = [] then new_comps
      else if last new_comps = ''..'' then new_comps @ [c]
      else butlast new_comps)"

definition normpath :: "string \<Rightarrow> string" where
  "normpath p =
     (if p = [] then ''.''
      else
        let initial_slashes =
              (if take 1 p = [sep]
               then (if take 2 p = [sep, sep] \<and> \<not> take 3 p = [sep, sep, sep] then 2 else 1)
               else (0::nat));
            comps = fold (norm_step initial_slashes) (split sep p) [];
            q = replicate initial_slashes sep @ join sep comps
        in if q = [] then ''.'' else q)"

text \<open>\<^verbatim>\<open>s.replace(os.sep, ' - ')\<close>.\<close>

definition replace_sep :: "string \<Rightarrow> string" where
  "replace_sep s = concat (map (\<lambda>c. if c = sep then '' - '' else [c]) s)"

subsection \<open>The database\<close>

text \<open>
  A row of the table \<^verbatim>\<open>files\<close> (\<^verbatim>\<open>file_id\<close> is the position in the list) and, with the
  same keys, an entry of the current state that \<^verbatim>\<open>process_file\<close> returns.
\<close>

record file_record =
  path :: string
  checksum :: string
  timestamp :: int

text \<open>A row of the table \<^verbatim>\<open>albums\<close>.\<close>

record album_record =
  name :: string
  group_id :: nat

text \<open>
  The database and what the run does not control. The tables \<^verbatim>\<open>files\<close> and \<^verbatim>\<open>albums\<close>;
  for the failures of SQLite, a tape that says for each coming call of \<^verbatim>\<open>db_execute\<close>
  whether \<^verbatim>\<open>cursor.execute\<close> raises \<^verbatim>\<open>sqlite3.Error\<close> (when the tape is used up no
  call fails); the tables \<^verbatim>\<open>groups\<close> (group_id, name) and \<^verbatim>\<open>members\<close> (name, email,
  group_id) that the management program keeps; and the order in which this process
  iterates a set of strings (Python orders a set by the hashes of its elements, which
  change from process to process): the strings listed come first, in the order of the
  list, and the others follow.
\<close>

record db =
  files :: "file_record list"
  albums :: "album_record list"
  faults :: "bool list"
  groups :: "(nat \<times> string) list"
  members :: "(string \<times> string \<times> nat) list"
  hash_order :: "string list"

text \<open>The elements of a set of strings in the order of its iteration.\<close>

definition set_iter :: "string list \<Rightarrow> string list \<Rightarrow> string list" where
  "set_iter order xs =
     filter (\<lambda>x. x \<in> set xs) (remdups order) @ filter (\<lambda>x. x \<notin> set order) (remdups xs)"

datatype error = ValueError | TypeError

text \<open>
  \<^verbatim>\<open>db_execute\<close>: a statement that fails is rolled back and \<^verbatim>\<open>ValueError\<close> is raised;
  otherwise the statement is run and its rows are returned.
\<close>

definition db_execute :: "(db \<Rightarrow> 'a \<times> db) \<Rightarrow> db \<Rightarrow> (error + 'a) \<times> db" where
  "db_execute stmt d =
     (case faults d of
        [] \<Rightarrow> (case stmt d of (r, d') \<Rightarrow> (Inr r, d'))
      | b # bs \<Rightarrow>
          if b then (Inl ValueError, d\<lparr>faults := bs\<rparr>)
          else (case stmt (d\<lparr>faults := bs\<rparr>) of (r, d') \<Rightarrow> (Inr r, d')))"

text \<open>The statements of the program.\<close>

definition create_table :: "db \<Rightarrow> unit \<times> db" where
  \<comment> \<open>\<^verbatim>\<open>CREATE TABLE IF NOT EXISTS\<close>\<close>
  "create_table d = ((), d)"

definition select_file :: "string \<Rightarrow> db \<Rightarrow> file_record list \<times> db" where
  \<comment> \<open>\<^verbatim>\<open>SELECT checksum, timestamp FROM files WHERE path = ?\<close>\<close>
  "select_file p d = (filter (\<lambda>r. path r = p) (files d), d)"

definition insert_file :: "string \<Rightarrow> string \<Rightarrow> int \<Rightarrow> db \<Rightarrow> unit \<times> db" where
  \<comment> \<open>\<^verbatim>\<open>INSERT OR REPLACE INTO files (path, checksum, timestamp) VALUES (?, ?, ?)\<close>: the
      only key of the table is \<^verbatim>\<open>file_id\<close>, which the statement does not give, so no row
      conflicts with the new one and nothing is replaced\<close>
  "insert_file p c t d =
     ((), d\<lparr>files := files d @ [\<lparr>path = p, checksum = c, timestamp = t\<rparr>]\<rparr>)"

definition select_files :: "db \<Rightarrow> file_record list \<times> db" where
  \<comment> \<open>\<^verbatim>\<open>SELECT path, checksum, timestamp FROM files\<close> and \<^verbatim>\<open>SELECT path FROM files\<close>\<close>
  "select_files d = (files d, d)"

definition update_path :: "string \<Rightarrow> string \<Rightarrow> db \<Rightarrow> unit \<times> db" where
  \<comment> \<open>\<^verbatim>\<open>UPDATE files SET path = ? WHERE path = ?\<close>\<close>
  "update_path new old d =
     ((), d\<lparr>files := map (\<lambda>r. if path r = old then r\<lparr>path := new\<rparr> else r) (files d)\<rparr>)"

definition delete_file :: "string \<Rightarrow> db \<Rightarrow> unit \<times> db" where
  \<comment> \<open>\<^verbatim>\<open>DELETE FROM files WHERE path = ?\<close>\<close>
  "delete_file p d = ((), d\<lparr>files := filter (\<lambda>r. \<not> path r = p) (files d)\<rparr>)"

definition select_album_names :: "db \<Rightarrow> string list \<times> db" where
  \<comment> \<open>\<^verbatim>\<open>SELECT name FROM albums\<close>\<close>
  "select_album_names d = (map name (albums d), d)"

definition insert_album :: "string \<Rightarrow> nat \<Rightarrow> db \<Rightarrow> unit \<times> db" where
  \<comment> \<open>\<^verbatim>\<open>INSERT INTO albums (name, group_id) VALUES (?, ?)\<close>\<close>
  "insert_album n g d = ((), d\<lparr>albums := albums d @ [\<lparr>name = n, group_id = g\<rparr>]\<rparr>)"

definition delete_album :: "string \<Rightarrow> db \<Rightarrow> unit \<times> db" where
  \<comment> \<open>\<^verbatim>\<open>DELETE FROM albums WHERE name = ?\<close>\<close>
  "delete_album n d = ((), d\<lparr>albums := filter (\<lambda>a. \<not> name a = n) (albums d)\<rparr>)"

definition select_album_groups :: "string \<Rightarrow> db \<Rightarrow> string list \<times> db" where
  \<comment> \<open>\<^verbatim>\<open>SELECT groups.name FROM albums JOIN groups ON albums.group_id = groups.group_id
      WHERE albums.name = ?\<close>\<close>
  "select_album_groups album d =
     (concat (map (\<lambda>a. map snd (filter (\<lambda>g. fst g = group_id a) (groups d)))
                (filter (\<lambda>a. name a = album) (albums d))), d)"

definition select_member_info :: "string \<Rightarrow> string \<Rightarrow> db \<Rightarrow> (string \<times> string) list \<times> db" where
  \<comment> \<open>\<^verbatim>\<open>SELECT members.name, members.email FROM albums JOIN groups ON albums.group_id =
      groups.group_id JOIN members ON groups.group_id = members.group_id
      WHERE albums.name = ? AND groups.name = ?\<close>\<close>
  "select_member_info album group_name d =
     (concat (map (\<lambda>a.
        concat (map (\<lambda>g. map (\<lambda>m. (fst m, fst (snd m)))
                            (filter (\<lambda>m. snd (snd m) = fst g) (members d)))
                  (filter (\<lambda>g. fst g = group_id a \<and> snd g = group_name) (groups d))))
        (filter (\<lambda>a. name a = album) (albums d))), d)"

subsection \<open>The watched tree and its scan\<close>

text \<open>
  A node of the watched tree: a file with its name, its modification time and the digest
  that \<^verbatim>\<open>calculate_checksum\<close> computes for it (\<open>None\<close> when the file cannot be read and
  the call raises), or a directory with its name and its entries in the order of the
  listing.
\<close>

datatype fsnode = File string int "string option" | Dir string "fsnode list"

definition excluded_dirs :: "string set" where
  "excluded_dirs = {''#snapshot'', ''@eaDir''}"

definition excluded_files :: "string set" where
  "excluded_files = {''Thumbs.db''}"

text \<open>
  A task of \<^verbatim>\<open>get_file_list\<close>: the path of the file relative to the watch root, as the list
  of its components, its modification time and its digest (which stands for the full path
  that \<^verbatim>\<open>calculate_checksum\<close> opens).
\<close>

type_synonym task = "string list \<times> int \<times> string option"

fun dir_files :: "string list \<Rightarrow> fsnode list \<Rightarrow> task list" where
  "dir_files root [] = []"
| "dir_files root (File f t c # ns) =
     (if f \<in> excluded_files then dir_files root ns
      else (root @ [f], t, c) # dir_files root ns)"
| "dir_files root (Dir d sub # ns) = dir_files root ns"

fun kept_dir :: "fsnode \<Rightarrow> bool" where
  "kept_dir (File f t c) = False"
| "kept_dir (Dir d sub) = (d \<notin> excluded_dirs)"

text \<open>
  \<^verbatim>\<open>os.walk\<close>, top down, with the pruning of \<^verbatim>\<open>dirs[:]\<close>: the files of a directory, then
  each of its kept subdirectories. \<open>walk_dir n root\<close> walks the directory \<open>n\<close> that lies in
  the directory \<open>root\<close>.
\<close>

fun walk_dir :: "fsnode \<Rightarrow> string list \<Rightarrow> task list" where
  "walk_dir (File f t c) root = []"
| "walk_dir (Dir d sub) root =
     dir_files (root @ [d]) sub
     @ concat (map (\<lambda>n. walk_dir n (root @ [d])) (filter kept_dir sub))"

definition os_walk :: "fsnode list \<Rightarrow> task list" where
  "os_walk tree = dir_files [] tree @ concat (map (\<lambda>n. walk_dir n []) (filter kept_dir tree))"

text \<open>\<^verbatim>\<open>os.path.relpath(full_path, shared_photos)\<close> of a file below the watch root.\<close>

definition relpath :: "string list \<Rightarrow> string" where
  "relpath comps = join sep comps"

subsection \<open>Per-file processing\<close>

text \<open>
  \<^verbatim>\<open>process_file\<close>: every exception is caught, a message is printed and nothing is
  returned (\<open>None\<close>).
\<close>

definition process_file :: "task \<Rightarrow> db \<Rightarrow> file_record option \<times> db" where
  "process_file tk d =
     (case tk of (comps, modified_time, digest) \<Rightarrow>
        let relative_path = relpath comps in
        case db_execute (select_file relative_path) d of
          (Inl e, d1) \<Rightarrow> (None, d1)
        | (Inr result, d1) \<Rightarrow>
            let hash_and_store =
                  (case digest of
                     None \<Rightarrow> (None, d1)
                   | Some c \<Rightarrow>
                       (case db_execute (insert_file relative_path c modified_time) d1 of
                          (Inl e, d2) \<Rightarrow> (None, d2)
                        | (Inr u, d2) \<Rightarrow>
                            (Some \<lparr>path = relative_path, checksum = c,
                                   timestamp = modified_time\<rparr>, d2)))
            in
            (case result of
               [] \<Rightarrow> hash_and_store
             | r # rs \<Rightarrow>
                 if timestamp r = modified_time
                 then (Some \<lparr>path = relative_path, checksum = checksum r,
                             timestamp = modified_time\<rparr>, d1)
                 else hash_and_store))"

fun process_tasks :: "task list \<Rightarrow> db \<Rightarrow> file_record list \<times> db" where
  "process_tasks [] d = ([], d)"
| "process_tasks (tk # tks) d =
     (case process_file tk d of
        (None, d1) \<Rightarrow> process_tasks tks d1
      | (Some e, d1) \<Rightarrow> (case process_tasks tks d1 of (es, d2) \<Rightarrow> (e # es, d2)))"

definition get_file_list :: "fsnode list \<Rightarrow> db \<Rightarrow> file_record list \<times> db" where
  "get_file_list tree d = process_tasks (os_walk tree) d"

subsection \<open>Prior state and classification\<close>

text \<open>
  A Python dictionary keeps its keys in the order of their first insertion and, for a key
  given twice, the last value: an association list under \<open>AList.update\<close>, read with
  \<open>map_of\<close>. The prior state maps a path to its checksum and timestamp.
\<close>

type_synonym prior_state = "(string \<times> string \<times> int) list"

definition prior_of_rows :: "file_record list \<Rightarrow> prior_state" where
  "prior_of_rows rows = fold (\<lambda>r. AList.update (path r) (checksum r, timestamp r)) rows []"

text \<open>\<^verbatim>\<open>load_prior_state\<close>: the error of \<^verbatim>\<open>db_execute\<close> is not caught.\<close>

definition load_prior_state :: "db \<Rightarrow> (error + prior_state) \<times> db" where
  "load_prior_state d =
     (case db_execute select_files d of
        (Inl e, d1) \<Rightarrow> (Inl e, d1)
      | (Inr rows, d1) \<Rightarrow> (Inr (prior_of_rows rows), d1))"

text \<open>
  \<^verbatim>\<open>detect_files('new', ...)\<close>: the entries whose path is not in the prior state or has
  another checksum there.
\<close>

definition is_new :: "prior_state \<Rightarrow> file_record \<Rightarrow> bool" where
  "is_new prior e =
     (case map_of prior (path e) of None \<Rightarrow> True | Some v \<Rightarrow> \<not> fst v = checksum e)"

definition detect_new :: "file_record list \<Rightarrow> prior_state \<Rightarrow> file_record list" where
  "detect_new cur prior = filter (is_new prior) cur"

text \<open>
  \<^verbatim>\<open>detect_files('move', ...)\<close>: the reverse index from checksum to path, the moved
  entries, and one \<^verbatim>\<open>UPDATE\<close> for each; an error of \<^verbatim>\<open>db_execute\<close> is not caught.
\<close>

record move =
  old_path :: string
  new_path :: string

definition prior_checksums :: "prior_state \<Rightarrow> (string \<times> string) list" where
  "prior_checksums prior = fold (\<lambda>kv. AList.update (fst (snd kv)) (fst kv)) prior []"

definition moved_of :: "(string \<times> string) list \<Rightarrow> file_record \<Rightarrow> move list" where
  "moved_of pc e =
     (case map_of pc (checksum e) of
        None \<Rightarrow> []
      | Some old \<Rightarrow> if old = path e then [] else [\<lparr>old_path = old, new_path = path e\<rparr>])"

definition moved_files :: "file_record list \<Rightarrow> prior_state \<Rightarrow> move list" where
  "moved_files cur prior = concat (map (moved_of (prior_checksums prior)) cur)"

fun apply_moves :: "move list \<Rightarrow> db \<Rightarrow> (error + unit) \<times> db" where
  "apply_moves [] d = (Inr (), d)"
| "apply_moves (m # ms) d =
     (case db_execute (update_path (new_path m) (old_path m)) d of
        (Inl e, d1) \<Rightarrow> (Inl e, d1)
      | (Inr u, d1) \<Rightarrow> apply_moves ms d1)"

definition detect_move ::
  "file_record list \<Rightarrow> prior_state \<Rightarrow> db \<Rightarrow> (error + move list) \<times> db" where
  "detect_move cur prior d =
     (case apply_moves (moved_files cur prior) d of
        (Inl e, d1) \<Rightarrow> (Inl e, d1)
      | (Inr u, d1) \<Rightarrow> (Inr (moved_files cur prior), d1))"

text \<open>
  \<^verbatim>\<open>detect_files('delete', ...)\<close>: the prior paths that are not current, and one
  \<^verbatim>\<open>DELETE\<close> for each; an error of \<^verbatim>\<open>db_execute\<close> is not caught.
\<close>

definition deleted_files :: "file_record list \<Rightarrow> prior_state \<Rightarrow> string list" where
  "deleted_files cur prior = filter (\<lambda>p. p \<notin> set (map path cur)) (map fst prior)"

fun apply_deletes :: "string list \<Rightarrow> db \<Rightarrow> (error + unit) \<times> db" where
  "apply_deletes [] d = (Inr (), d)"
| "apply_deletes (p # ps) d =
     (case db_execute (delete_file p) d of
        (Inl e, d1) \<Rightarrow> (Inl e, d1)
      | (Inr u, d1) \<Rightarrow> apply_deletes ps d1)"

definition detect_delete ::
  "file_record list \<Rightarrow> prior_state \<Rightarrow> db \<Rightarrow> (error + string list) \<times> db" where
  "detect_delete cur prior d =
     (case apply_deletes (deleted_files cur prior) d of
        (Inl e, d1) \<Rightarrow> (Inl e, d1)
      | (Inr u, d1) \<Rightarrow> (Inr (deleted_files cur prior), d1))"

subsection \<open>Albums\<close>

text \<open>The key that \<^verbatim>\<open>check_removed_albums\<close> derives from a path.\<close>

definition album_key :: "string \<Rightarrow> string" where
  "album_key p = replace_sep (normpath (dirname p))"

text \<open>The key that \<^verbatim>\<open>initialize_albums\<close> and \<^verbatim>\<open>get_album_photo_counts\<close> derive.\<close>

definition album_name :: "string \<Rightarrow> string" where
  "album_name p = replace_sep (dirname p)"

text \<open>
  The loops of \<^verbatim>\<open>initialize_albums\<close> and \<^verbatim>\<open>check_removed_albums\<close> run inside a
  \<^verbatim>\<open>try\<close> whose handler prints the error: the first failing statement ends the loop and
  the function returns.
\<close>

fun insert_albums :: "string list \<Rightarrow> db \<Rightarrow> db" where
  "insert_albums [] d = d"
| "insert_albums (n # ns) d =
     (case db_execute (insert_album n 1) d of
        (Inl e, d1) \<Rightarrow> d1
      | (Inr u, d1) \<Rightarrow> insert_albums ns d1)"

definition initialize_albums :: "db \<Rightarrow> db" where
  "initialize_albums d =
     (case db_execute create_table d of
        (Inl e, d1) \<Rightarrow> d1
      | (Inr u, d1) \<Rightarrow>
          (case db_execute select_files d1 of
             (Inl e, d2) \<Rightarrow> d2
           | (Inr file_list, d2) \<Rightarrow>
               let sorted_albums = sort (remdups (map (\<lambda>r. dirname (path r)) file_list));
                   formatted_albums = map replace_sep sorted_albums
               in insert_albums formatted_albums d2))"

fun remove_albums :: "string list \<Rightarrow> db \<Rightarrow> db" where
  "remove_albums [] d = d"
| "remove_albums (n # ns) d =
     (case db_execute (delete_album n) d of
        (Inl e, d1) \<Rightarrow> d1
      | (Inr u, d1) \<Rightarrow> remove_albums ns d1)"

text \<open>
  \<^verbatim>\<open>check_removed_albums\<close>. The albums to remove are a Python set; the loop takes them
  in the order of its iteration.
\<close>

definition check_removed_albums :: "file_record list \<Rightarrow> db \<Rightarrow> db" where
  "check_removed_albums file_entries d =
     (case db_execute select_album_names d of
        (Inl e, d1) \<Rightarrow> d1
      | (Inr db_albums, d1) \<Rightarrow>
          let current_albums = map (\<lambda>e. album_key (path e)) file_entries;
              albums_to_remove =
                set_iter (hash_order d1) (filter (\<lambda>n. n \<notin> set current_albums) db_albums)
          in remove_albums albums_to_remove d1)"

text \<open>\<^verbatim>\<open>get_album_photo_counts\<close>: the number of new files of each album.\<close>

definition count_album :: "string \<Rightarrow> (string \<times> nat) list \<Rightarrow> (string \<times> nat) list" where
  "count_album a counts =
     AList.update a (case map_of counts a of None \<Rightarrow> 1 | Some n \<Rightarrow> n + 1) counts"

definition get_album_photo_counts :: "file_record list \<Rightarrow> (string \<times> nat) list" where
  "get_album_photo_counts file_entries =
     fold (\<lambda>e. count_album (album_name (path e))) file_entries []"

subsection \<open>Alerts\<close>

text \<open>
  \<^verbatim>\<open>get_album_groups\<close> and \<^verbatim>\<open>get_member_info\<close>: they return nothing (\<open>None\<close>) when the
  query finds no row, and also when it fails, since they catch the \<^verbatim>\<open>ValueError\<close>.
\<close>

definition get_album_groups :: "string \<Rightarrow> db \<Rightarrow> string list option \<times> db" where
  "get_album_groups album d =
     (case db_execute (select_album_groups album) d of
        (Inl e, d1) \<Rightarrow> (None, d1)
      | (Inr group_names, d1) \<Rightarrow> (if group_names = [] then None else Some group_names, d1))"

definition get_member_info :: "string \<Rightarrow> string \<Rightarrow> db \<Rightarrow> (string \<times> string) list option \<times> db" where
  "get_member_info album group_name d =
     (case db_execute (select_member_info album group_name) d of
        (Inl e, d1) \<Rightarrow> (None, d1)
      | (Inr member_info, d1) \<Rightarrow> (if member_info = [] then None else Some member_info, d1))"

text \<open>
  The first loop of \<^verbatim>\<open>sendalerts\<close> collects, for each album of the counts, the set of the
  members of its groups. It iterates over what the two functions above return, so a
  \<open>None\<close> raises \<^verbatim>\<open>TypeError\<close>, which nothing catches.
\<close>

fun group_members :: "string \<Rightarrow> string list \<Rightarrow> db \<Rightarrow> (error + (string \<times> string) set) \<times> db" where
  "group_members album [] d = (Inr {}, d)"
| "group_members album (g # gs) d =
     (case get_member_info album g d of
        (None, d1) \<Rightarrow> (Inl TypeError, d1)
      | (Some member_info_list, d1) \<Rightarrow>
          (case group_members album gs d1 of
             (Inl e, d2) \<Rightarrow> (Inl e, d2)
           | (Inr s, d2) \<Rightarrow> (Inr (set member_info_list \<union> s), d2)))"

fun collect_members ::
  "(string \<times> nat) list \<Rightarrow> db \<Rightarrow> (error + (string \<times> (string \<times> string) set) list) \<times> db" where
  "collect_members [] d = (Inr [], d)"
| "collect_members (ac # rest) d =
     (case get_album_groups (fst ac) d of
        (None, d1) \<Rightarrow> (Inl TypeError, d1)
      | (Some group_list, d1) \<Rightarrow>
          (case group_members (fst ac) group_list d1 of
             (Inl e, d2) \<Rightarrow> (Inl e, d2)
           | (Inr s, d2) \<Rightarrow>
               (case collect_members rest d2 of
                  (Inl e, d3) \<Rightarrow> (Inl e, d3)
                | (Inr ms, d3) \<Rightarrow> (Inr ((fst ac, s) # ms), d3))))"

text \<open>
  \<^verbatim>\<open>sendalerts\<close>: when the first loop has ended, one message is sent to every member of
  every album (each in a \<^verbatim>\<open>try\<close> of its own); the result is the members of each album.
  The transport of the messages is outside the model.
\<close>

definition sendalerts ::
  "(string \<times> nat) list \<Rightarrow> db \<Rightarrow> (error + (string \<times> (string \<times> string) set) list) \<times> db" where
  "sendalerts new_photo_count d = collect_members new_photo_count d"

subsection \<open>The run\<close>

text \<open>
  How \<^verbatim>\<open>main\<close> ends: by \<^verbatim>\<open>exit(n)\<close>, by an exception that nothing catches (the
  interpreter prints it and exits with code 1), or by returning.
\<close>

datatype status = Exited nat | Uncaught error | Returned

text \<open>
  What a run leaves: how it ended, the three lists (\<open>None\<close> when the run did not compute
  them), the counts for which \<^verbatim>\<open>sendalerts\<close> sent its messages (\<open>None\<close> when it was not
  called or raised before it sent any) and the database.
\<close>

record run =
  status :: status
  files_new :: "file_record list option"
  files_moved :: "move list option"
  files_deleted :: "string list option"
  alerts :: "(string \<times> nat) list option"
  store :: db

definition initialize_database :: "db \<Rightarrow> db" where
  \<comment> \<open>the \<^verbatim>\<open>ValueError\<close> is caught and printed\<close>
  "initialize_database d = snd (db_execute create_table d)"

definition exit_code :: "status \<Rightarrow> nat" where
  "exit_code s = (case s of Exited n \<Rightarrow> n | Uncaught e \<Rightarrow> 1 | Returned \<Rightarrow> 0)"

text \<open>
  \<^verbatim>\<open>main\<close>. \<open>root\<close> is the watched tree, \<open>None\<close> when \<^verbatim>\<open>shared_photos\<close> does not exist;
  \<open>manage\<close> is what the interactive session of \<^verbatim>\<open>sentinelmanage.py\<close> does to the database
  on the first run. The check of the installed packages (\<^verbatim>\<open>install_requirements\<close>) is left
  out. The three calls of \<^verbatim>\<open>detect_files\<close> come before \<^verbatim>\<open>sendalerts\<close>, which is called
  when there are new files.
\<close>

definition main :: "fsnode list option \<Rightarrow> (db \<Rightarrow> db) \<Rightarrow> db \<Rightarrow> run" where
  "main root manage d =
     (case root of
        None \<Rightarrow>
          \<lparr>status = Exited 1, files_new = None, files_moved = None, files_deleted = None,
           alerts = None, store = d\<rparr>
      | Some tree \<Rightarrow>
          (case load_prior_state (initialize_database d) of
             (Inl e, d1) \<Rightarrow>
               \<lparr>status = Uncaught e, files_new = None, files_moved = None,
                files_deleted = None, alerts = None, store = d1\<rparr>
           | (Inr prior, d1) \<Rightarrow>
               if prior = [] then
                 \<lparr>status = Exited 0, files_new = None, files_moved = None,
                  files_deleted = None, alerts = None,
                  store = manage (initialize_albums (snd (get_file_list tree d1)))\<rparr>
               else
                 (case get_file_list tree d1 of (current_state, d2) \<Rightarrow>
                    let d3 = check_removed_albums current_state d2;
                        new = detect_new current_state prior
                    in
                    (case detect_move current_state prior d3 of
                       (Inl e, d4) \<Rightarrow>
                         \<lparr>status = Uncaught e, files_new = Some new, files_moved = None,
                          files_deleted = None, alerts = None, store = d4\<rparr>
                     | (Inr moved, d4) \<Rightarrow>
                         (case detect_delete current_state prior d4 of
                            (Inl e, d5) \<Rightarrow>
                              \<lparr>status = Uncaught e, files_new = Some new,
                               files_moved = Some moved, files_deleted = None,
                               alerts = None, store = d5\<rparr>
                          | (Inr deleted, d5) \<Rightarrow>
                              if new = [] then
                                \<lparr>status = Returned, files_new = Some new,
                                 files_moved = Some moved, files_deleted = Some deleted,
                                 alerts = None, store = d5\<rparr>
                              else
                                (case sendalerts (get_album_photo_counts new) d5 of
                                   (Inl e, d6) \<Rightarrow>
                                     \<lparr>status = Uncaught e, files_new = Some new,
                                      files_moved = Some moved, files_deleted = Some deleted,
                                      alerts = None, store = d6\<rparr>
                                 | (Inr sent, d6) \<Rightarrow>
                                     \<lparr>status = Returned, files_new = Some new,
                                      files_moved = Some moved, files_deleted = Some deleted,
                                      alerts = Some (get_album_photo_counts new),
                                      store = d6\<rparr>))))))"

subsection \<open>The files of a tree\<close>

text \<open>
  Every regular file under the root, with nothing excluded, in the order of the walk; and
  the test that a file is not excluded by its name and lies under no excluded directory.
\<close>

fun dir_all_files :: "string list \<Rightarrow> fsnode list \<Rightarrow> task list" where
  "dir_all_files root [] = []"
| "dir_all_files root (File f t c # ns) = (root @ [f], t, c) # dir_all_files root ns"
| "dir_all_files root (Dir d sub # ns) = dir_all_files root ns"

fun all_dir :: "fsnode \<Rightarrow> string list \<Rightarrow> task list" where
  "all_dir (File f t c) root = []"
| "all_dir (Dir d sub) root =
     dir_all_files (root @ [d]) sub @ concat (map (\<lambda>n. all_dir n (root @ [d])) sub)"

definition tree_files :: "fsnode list \<Rightarrow> task list" where
  "tree_files tree = dir_all_files [] tree @ concat (map (\<lambda>n. all_dir n []) tree)"

definition allowed :: "task \<Rightarrow> bool" where
  "allowed tk = (last (fst tk) \<notin> excluded_files \<and> set (butlast (fst tk)) \<inter> excluded_dirs = {})"

subsection \<open>Notions used in the statements\<close>

text \<open>The invariant of the data model: at most one record for each relative path.\<close>

definition one_record_per_path :: "db \<Rightarrow> bool" where
  "one_record_per_path d = distinct (map path (files d))"

text \<open>The rows of the table \<^verbatim>\<open>files\<close> after the \<^verbatim>\<open>UPDATE\<close>s of a list of moves.\<close>

definition rename_row :: "move \<Rightarrow> file_record \<Rightarrow> file_record" where
  "rename_row m r = (if path r = old_path m then r\<lparr>path := new_path m\<rparr> else r)"

definition rename_rows :: "move list \<Rightarrow> file_record list \<Rightarrow> file_record list" where
  "rename_rows ms rows = fold (\<lambda>m. map (rename_row m)) ms rows"



section \<open>Properties\<close>

subsection \<open>The walk\<close>

lemma concat_map_filter_if:
  "(\<And>n. n \<in> set xs \<Longrightarrow> g n = (if P n then f n else [])) \<Longrightarrow>
   concat (map g xs) = concat (map f (filter P xs))"
  by (induction xs) auto

lemma filter_concat_map:
  "filter P (concat (map h xs)) = concat (map (\<lambda>n. filter P (h n)) xs)"
  by (induction xs) auto

lemma filter_dir_all_files_ok:
  "set root \<inter> excluded_dirs = {} \<Longrightarrow> filter allowed (dir_all_files root ns) = dir_files root ns"
  by (induction root ns rule: dir_all_files.induct) (auto simp: allowed_def)

lemma filter_dir_all_files_bad:
  "set root \<inter> excluded_dirs \<noteq> {} \<Longrightarrow> filter allowed (dir_all_files root ns) = []"
  by (induction root ns rule: dir_all_files.induct) (auto simp: allowed_def)

lemma filter_all_dir_bad:
  "set root \<inter> excluded_dirs \<noteq> {} \<Longrightarrow> filter allowed (all_dir n root) = []"
proof (induction n root rule: all_dir.induct)
  case (1 f t c root)
  then show ?case by simp
next
  case (2 d sub root)
  have bad: "set (root @ [d]) \<inter> excluded_dirs \<noteq> {}" using 2(2) by auto
  have "filter allowed (concat (map (\<lambda>n. all_dir n (root @ [d])) sub)) = []"
    using 2(1)[OF _ bad] by (simp add: filter_concat_map)
  then show ?case using filter_dir_all_files_bad[OF bad] by simp
qed

lemma filter_all_dir_ok:
  "set root \<inter> excluded_dirs = {} \<Longrightarrow>
   filter allowed (all_dir n root) = (if kept_dir n then walk_dir n root else [])"
proof (induction n root rule: all_dir.induct)
  case (1 f t c root)
  then show ?case by simp
next
  case (2 d sub root)
  show ?case
  proof (cases "d \<in> excluded_dirs")
    case True
    then have bad: "set (root @ [d]) \<inter> excluded_dirs \<noteq> {}" by auto
    have "filter allowed (concat (map (\<lambda>n. all_dir n (root @ [d])) sub)) = []"
      using filter_all_dir_bad[OF bad] by (simp add: filter_concat_map)
    then show ?thesis using True filter_dir_all_files_bad[OF bad] by simp
  next
    case False
    then have ok: "set (root @ [d]) \<inter> excluded_dirs = {}" using 2(2) by auto
    have "filter allowed (concat (map (\<lambda>n. all_dir n (root @ [d])) sub))
          = concat (map (\<lambda>n. walk_dir n (root @ [d])) (filter kept_dir sub))"
      unfolding filter_concat_map
      by (rule concat_map_filter_if) (rule 2(1)[OF _ ok])
    then show ?thesis using False filter_dir_all_files_ok[OF ok] by simp
  qed
qed

lemma os_walk_filter: "os_walk tree = filter allowed (tree_files tree)"
proof -
  have "filter allowed (concat (map (\<lambda>n. all_dir n []) tree))
        = concat (map (\<lambda>n. walk_dir n []) (filter kept_dir tree))"
    unfolding filter_concat_map
    by (rule concat_map_filter_if) (simp add: filter_all_dir_ok)
  then show ?thesis
    using filter_dir_all_files_ok[of "[]" tree] by (simp add: os_walk_def tree_files_def)
qed

subsection \<open>Statements and per-file processing\<close>

lemma db_execute_nofault:
  "faults d = [] \<Longrightarrow> db_execute stmt d = (Inr (fst (stmt d)), snd (stmt d))"
  by (simp add: db_execute_def split: prod.splits)


lemma db_select_file:
  "db_execute (select_file p) d = (r, d1) \<Longrightarrow>
   files d1 = files d \<and> albums d1 = albums d \<and>
   (r = Inl ValueError \<or> r = Inr (filter (\<lambda>x. path x = p) (files d)))"
  by (cases "faults d") (auto simp: db_execute_def select_file_def split: if_splits)

lemma db_insert_file:
  "db_execute (insert_file p c t) d = (r, d1) \<Longrightarrow>
   albums d1 = albums d \<and>
   ((r = Inl ValueError \<and> files d1 = files d) \<or>
    (r = Inr () \<and> files d1 = files d @ [\<lparr>path = p, checksum = c, timestamp = t\<rparr>]))"
  by (cases "faults d") (auto simp: db_execute_def insert_file_def split: if_splits)

lemma process_file_nofault:
  "faults d = [] \<Longrightarrow>
   process_file (comps, t, dg) d =
     (case filter (\<lambda>r. path r = relpath comps) (files d) of
        [] \<Rightarrow>
          (case dg of
             None \<Rightarrow> (None, d)
           | Some c \<Rightarrow>
               (Some \<lparr>path = relpath comps, checksum = c, timestamp = t\<rparr>,
                d\<lparr>files := files d @ [\<lparr>path = relpath comps, checksum = c, timestamp = t\<rparr>]\<rparr>))
      | r # rs \<Rightarrow>
          if timestamp r = t
          then (Some \<lparr>path = relpath comps, checksum = checksum r, timestamp = t\<rparr>, d)
          else
            (case dg of
               None \<Rightarrow> (None, d)
             | Some c \<Rightarrow>
                 (Some \<lparr>path = relpath comps, checksum = c, timestamp = t\<rparr>,
                  d\<lparr>files := files d @ [\<lparr>path = relpath comps, checksum = c, timestamp = t\<rparr>]\<rparr>)))"
  by (simp add: process_file_def db_execute_nofault select_file_def insert_file_def Let_def
      split: list.splits option.splits)

lemma process_file_nofault_faults:
  "faults d = [] \<Longrightarrow> faults (snd (process_file tk d)) = []"
  by (cases tk) (simp add: process_file_nofault split: list.splits option.splits)

lemma process_file_effect:
  assumes "process_file tk d = (r, d')"
  shows "albums d' = albums d \<and>
   (files d' = files d \<or>
    (\<exists>c. files d' = files d @ [\<lparr>path = relpath (fst tk), checksum = c, timestamp = fst (snd tk)\<rparr>]))"
proof -
  obtain comps t dg where tk: "tk = (comps, t, dg)" by (cases tk)
  obtain r1 d1 where s: "db_execute (select_file (relpath comps)) d = (r1, d1)"
    by (cases "db_execute (select_file (relpath comps)) d")
  note s1 = db_select_file[OF s]
  show ?thesis
  proof (cases r1)
    case (Inl e)
    then show ?thesis using assms s s1 by (simp add: process_file_def tk Let_def)
  next
    case (Inr result)
    show ?thesis
    proof (cases "\<exists>x xs. result = x # xs \<and> timestamp x = t")
      case True
      then show ?thesis using assms s s1 Inr
        by (auto simp: process_file_def tk Let_def)
    next
      case False
      show ?thesis
      proof (cases dg)
        case None
        then show ?thesis using assms s s1 Inr False
          by (auto simp: process_file_def tk Let_def split: list.splits if_splits)
      next
        case (Some c)
        obtain r2 d2 where i: "db_execute (insert_file (relpath comps) c t) d1 = (r2, d2)"
          by (cases "db_execute (insert_file (relpath comps) c t) d1")
        note i1 = db_insert_file[OF i]
        have "d' = d2" using assms s Inr False Some i
          by (auto simp: process_file_def tk Let_def split: list.splits if_splits sum.splits)
        then show ?thesis using i1 s1 by (auto simp: tk)
      qed
    qed
  qed
qed

lemma process_file_entry:
  assumes "process_file tk d = (Some e, d')"
  shows "path e = relpath (fst tk) \<and> timestamp e = fst (snd tk)"
proof -
  obtain comps t dg where tk: "tk = (comps, t, dg)" by (cases tk)
  obtain r1 d1 where s: "db_execute (select_file (relpath comps)) d = (r1, d1)"
    by (cases "db_execute (select_file (relpath comps)) d")
  show ?thesis
  proof (cases dg)
    case None
    then show ?thesis using assms s
      by (auto simp: process_file_def tk Let_def split: list.splits if_splits sum.splits)
  next
    case (Some c)
    obtain r2 d2 where i: "db_execute (insert_file (relpath comps) c t) d1 = (r2, d2)"
      by (cases "db_execute (insert_file (relpath comps) c t) d1")
    show ?thesis using assms s i Some
      by (auto simp: process_file_def tk Let_def split: list.splits if_splits sum.splits)
  qed
qed

lemma process_tasks_paths:
  "path ` set (fst (process_tasks tks d)) \<subseteq> (\<lambda>tk. relpath (fst tk)) ` set tks"
proof (induction tks arbitrary: d)
  case Nil
  then show ?case by simp
next
  case (Cons tk tks)
  obtain r d1 where p: "process_file tk d = (r, d1)" by (cases "process_file tk d")
  show ?case
  proof (cases r)
    case None
    then show ?thesis using p Cons.IH[of d1] by auto
  next
    case (Some e)
    obtain es d2 where q: "process_tasks tks d1 = (es, d2)" by (cases "process_tasks tks d1")
    have "path e = relpath (fst tk)" using process_file_entry p Some by blast
    then show ?thesis using p Some q Cons.IH[of d1] by auto
  qed
qed

subsection \<open>Runs in which no statement fails\<close>

lemma initialize_database_nofault: "faults d = [] \<Longrightarrow> initialize_database d = d"
  by (simp add: initialize_database_def db_execute_nofault create_table_def)

lemma load_prior_state_nofault:
  "faults d = [] \<Longrightarrow> load_prior_state d = (Inr (prior_of_rows (files d)), d)"
  by (simp add: load_prior_state_def db_execute_nofault select_files_def)

lemma apply_moves_nofault:
  "faults d = [] \<Longrightarrow> apply_moves ms d = (Inr (), d\<lparr>files := rename_rows ms (files d)\<rparr>)"
proof (induction ms arbitrary: d)
  case Nil
  then show ?case by (simp add: rename_rows_def)
next
  case (Cons m ms)
  let ?d1 = "d\<lparr>files := map (rename_row m) (files d)\<rparr>"
  have f: "faults ?d1 = []" using Cons.prems by simp
  have "db_execute (update_path (new_path m) (old_path m)) d = (Inr (), ?d1)"
    using Cons.prems by (simp add: db_execute_nofault update_path_def rename_row_def)
  then show ?case using Cons.IH[OF f] by (simp add: rename_rows_def)
qed

lemma apply_deletes_nofault:
  "faults d = [] \<Longrightarrow>
   apply_deletes ps d = (Inr (), d\<lparr>files := filter (\<lambda>r. path r \<notin> set ps) (files d)\<rparr>)"
proof (induction ps arbitrary: d)
  case Nil
  then show ?case by simp
next
  case (Cons p ps)
  let ?d1 = "d\<lparr>files := filter (\<lambda>r. \<not> path r = p) (files d)\<rparr>"
  have f: "faults ?d1 = []" using Cons.prems by simp
  have "db_execute (delete_file p) d = (Inr (), ?d1)"
    using Cons.prems by (simp add: db_execute_nofault delete_file_def)
  then show ?case using Cons.IH[OF f] by (simp add: conj_commute)
qed

lemma remove_albums_nofault:
  "faults d = [] \<Longrightarrow>
   remove_albums ns d = d\<lparr>albums := filter (\<lambda>a. name a \<notin> set ns) (albums d)\<rparr>"
proof (induction ns arbitrary: d)
  case Nil
  then show ?case by simp
next
  case (Cons n ns)
  let ?d1 = "d\<lparr>albums := filter (\<lambda>a. \<not> name a = n) (albums d)\<rparr>"
  have f: "faults ?d1 = []" using Cons.prems by simp
  have "db_execute (delete_album n) d = (Inr (), ?d1)"
    using Cons.prems by (simp add: db_execute_nofault delete_album_def)
  then show ?case using Cons.IH[OF f] by (simp add: conj_commute)
qed


lemma set_set_iter: "set (set_iter order xs) = set xs"
  by (auto simp: set_iter_def)

lemma check_removed_albums_nofault:
  assumes "faults d = []"
  shows "check_removed_albums cur d =
         d\<lparr>albums := filter (\<lambda>a. name a \<in> set (map (\<lambda>e. album_key (path e)) cur)) (albums d)\<rparr>"
proof -
  let ?cur = "map (\<lambda>e. album_key (path e)) cur"
  let ?rm = "set_iter (hash_order d) (filter (\<lambda>n. n \<notin> set ?cur) (map name (albums d)))"
  have "filter (\<lambda>a. name a \<notin> set ?rm) (albums d) = filter (\<lambda>a. name a \<in> set ?cur) (albums d)"
    unfolding set_set_iter by (rule filter_cong) auto
  then show ?thesis
    using assms
    by (simp add: check_removed_albums_def db_execute_nofault select_album_names_def
        remove_albums_nofault Let_def)
qed


lemma process_tasks_nofault:
  "faults d = [] \<Longrightarrow>
   faults (snd (process_tasks tks d)) = [] \<and>
   albums (snd (process_tasks tks d)) = albums d \<and>
   (\<exists>xs. files (snd (process_tasks tks d)) = files d @ xs)"
proof (induction tks arbitrary: d)
  case Nil
  then show ?case by simp
next
  case (Cons tk tks)
  obtain r d1 where p: "process_file tk d = (r, d1)" by (cases "process_file tk d")
  have f1: "faults d1 = []" using process_file_nofault_faults[OF Cons.prems, of tk] p by simp
  note e = process_file_effect[OF p]
  note ih = Cons.IH[OF f1]
  obtain es d2 where q: "process_tasks tks d1 = (es, d2)" by (cases "process_tasks tks d1")
  have "snd (process_tasks (tk # tks) d) = d2" using p q by (cases r) auto
  then show ?case using ih q e by auto
qed

lemma prior_of_rows_empty: "prior_of_rows rows = [] \<longleftrightarrow> rows = []"
proof -
  have "fold (\<lambda>r. AList.update (path r) (checksum r, timestamp r)) rows acc = [] \<longleftrightarrow>
        rows = [] \<and> acc = []" for acc
    by (induction rows arbitrary: acc) auto
  then show ?thesis by (simp add: prior_of_rows_def)
qed






lemma get_member_info_nofault: "faults d = [] \<Longrightarrow> snd (get_member_info a g d) = d"
  by (simp add: get_member_info_def db_execute_nofault select_member_info_def)

lemma get_album_groups_nofault: "faults d = [] \<Longrightarrow> snd (get_album_groups a d) = d"
  by (simp add: get_album_groups_def db_execute_nofault select_album_groups_def)

lemma group_members_nofault: "faults d = [] \<Longrightarrow> snd (group_members a gs d) = d"
proof (induction gs)
  case Nil
  then show ?case by simp
next
  case (Cons g gs)
  obtain m where m: "get_member_info a g d = (m, d)"
    using get_member_info_nofault[OF Cons.prems, of a g] by (cases "get_member_info a g d") simp
  show ?case using m Cons by (cases m) (auto split: prod.splits sum.splits)
qed

lemma collect_members_nofault: "faults d = [] \<Longrightarrow> snd (collect_members cs d) = d"
proof (induction cs)
  case Nil
  then show ?case by simp
next
  case (Cons ac cs)
  obtain g where g: "get_album_groups (fst ac) d = (g, d)"
    using get_album_groups_nofault[OF Cons.prems, of "fst ac"]
    by (cases "get_album_groups (fst ac) d") simp
  show ?case
  proof (cases g)
    case None
    then show ?thesis using g by simp
  next
    case (Some gl)
    obtain r2 where g2: "group_members (fst ac) gl d = (r2, d)"
      using group_members_nofault[OF Cons.prems, of "fst ac" gl]
      by (cases "group_members (fst ac) gl d") simp
    show ?thesis using g Some g2 Cons by (cases r2) (auto split: prod.splits sum.splits)
  qed
qed

lemma sendalerts_nofault: "faults d = [] \<Longrightarrow> snd (sendalerts cs d) = d"
  unfolding sendalerts_def by (rule collect_members_nofault)


lemma main_after_scan:
  assumes ld: "load_prior_state (initialize_database d) = (Inr prior, d1)"
    and pne: "prior \<noteq> []"
    and g: "get_file_list tree d1 = (cur, d2)"
    and f2: "faults d2 = []"
  shows "main (Some tree) manage d =
     \<lparr>status =
        (if detect_new cur prior = [] then Returned
         else (case fst (sendalerts (get_album_photo_counts (detect_new cur prior))
                 (d2\<lparr>albums := filter (\<lambda>a. name a \<in> set (map (\<lambda>e. album_key (path e)) cur))
                                  (albums d2),
                     files := filter (\<lambda>r. path r \<notin> set (deleted_files cur prior))
                                (rename_rows (moved_files cur prior) (files d2))\<rparr>)) of
                 Inl e \<Rightarrow> Uncaught e | Inr sent \<Rightarrow> Returned)),
      files_new = Some (detect_new cur prior),
      files_moved = Some (moved_files cur prior),
      files_deleted = Some (deleted_files cur prior),
      alerts =
        (if detect_new cur prior = [] then None
         else (case fst (sendalerts (get_album_photo_counts (detect_new cur prior))
                 (d2\<lparr>albums := filter (\<lambda>a. name a \<in> set (map (\<lambda>e. album_key (path e)) cur))
                                  (albums d2),
                     files := filter (\<lambda>r. path r \<notin> set (deleted_files cur prior))
                                (rename_rows (moved_files cur prior) (files d2))\<rparr>)) of
                 Inl e \<Rightarrow> None
               | Inr sent \<Rightarrow> Some (get_album_photo_counts (detect_new cur prior)))),
      store = d2\<lparr>albums := filter (\<lambda>a. name a \<in> set (map (\<lambda>e. album_key (path e)) cur))
                              (albums d2),
                 files := filter (\<lambda>r. path r \<notin> set (deleted_files cur prior))
                            (rename_rows (moved_files cur prior) (files d2))\<rparr>\<rparr>"
proof -
  let ?d3 = "d2\<lparr>albums := filter (\<lambda>a. name a \<in> set (map (\<lambda>e. album_key (path e)) cur)) (albums d2)\<rparr>"
  have c: "check_removed_albums cur d2 = ?d3" by (rule check_removed_albums_nofault[OF f2])
  have f3: "faults ?d3 = []" using f2 by simp
  let ?d4 = "?d3\<lparr>files := rename_rows (moved_files cur prior) (files ?d3)\<rparr>"
  have m: "detect_move cur prior ?d3 = (Inr (moved_files cur prior), ?d4)"
    unfolding detect_move_def apply_moves_nofault[OF f3] by simp
  have f4: "faults ?d4 = []" using f2 by simp
  let ?d5 = "d2\<lparr>albums := filter (\<lambda>a. name a \<in> set (map (\<lambda>e. album_key (path e)) cur)) (albums d2),
                files := filter (\<lambda>r. path r \<notin> set (deleted_files cur prior))
                           (rename_rows (moved_files cur prior) (files d2))\<rparr>"
  have dl: "detect_delete cur prior ?d4 = (Inr (deleted_files cur prior), ?d5)"
    unfolding detect_delete_def apply_deletes_nofault[OF f4] by simp
  have f5: "faults ?d5 = []" using f2 by simp
  let ?cs = "get_album_photo_counts (detect_new cur prior)"
  have sa: "sendalerts ?cs ?d5 = (fst (sendalerts ?cs ?d5), ?d5)"
    using sendalerts_nofault[OF f5, of ?cs] by (cases "sendalerts ?cs ?d5") simp
  show ?thesis
  proof (cases "detect_new cur prior = []")
    case True
    show ?thesis
      unfolding main_def
      by (simp only: option.case ld prod.case sum.case pne if_False g c Let_def m dl True) simp
  next
    case False
    show ?thesis
    proof (cases "fst (sendalerts ?cs ?d5)")
      case (Inl e)
      then have s: "sendalerts ?cs ?d5 = (Inl e, ?d5)" using sa by simp
      show ?thesis
        unfolding main_def
        by (simp only: option.case ld prod.case sum.case pne if_False g c Let_def m dl
            False s fst_conv)
    next
      case (Inr sent)
      then have s: "sendalerts ?cs ?d5 = (Inr sent, ?d5)" using sa by simp
      show ?thesis
        unfolding main_def
        by (simp only: option.case ld prod.case sum.case pne if_False g c Let_def m dl
            False s fst_conv)
    qed
  qed
qed

lemma main_pass:
  assumes nf: "faults d = []" and ne: "files d \<noteq> []"
  shows "main (Some tree) manage d =
     \<lparr>status =
        (if detect_new (fst (get_file_list tree d)) (prior_of_rows (files d)) = [] then Returned
         else (case fst (sendalerts
                 (get_album_photo_counts
                    (detect_new (fst (get_file_list tree d)) (prior_of_rows (files d))))
                 ((snd (get_file_list tree d))
                  \<lparr>albums := filter (\<lambda>a. name a \<in> set (map (\<lambda>e. album_key (path e))
                               (fst (get_file_list tree d)))) (albums d),
                   files := filter (\<lambda>r. path r \<notin> set (deleted_files (fst (get_file_list tree d))
                                                           (prior_of_rows (files d))))
                    (rename_rows (moved_files (fst (get_file_list tree d)) (prior_of_rows (files d)))
                       (files (snd (get_file_list tree d))))\<rparr>)) of
                 Inl e \<Rightarrow> Uncaught e | Inr sent \<Rightarrow> Returned)),
      files_new = Some (detect_new (fst (get_file_list tree d)) (prior_of_rows (files d))),
      files_moved = Some (moved_files (fst (get_file_list tree d)) (prior_of_rows (files d))),
      files_deleted = Some (deleted_files (fst (get_file_list tree d)) (prior_of_rows (files d))),
      alerts =
        (if detect_new (fst (get_file_list tree d)) (prior_of_rows (files d)) = [] then None
         else (case fst (sendalerts
                 (get_album_photo_counts
                    (detect_new (fst (get_file_list tree d)) (prior_of_rows (files d))))
                 ((snd (get_file_list tree d))
                  \<lparr>albums := filter (\<lambda>a. name a \<in> set (map (\<lambda>e. album_key (path e))
                               (fst (get_file_list tree d)))) (albums d),
                   files := filter (\<lambda>r. path r \<notin> set (deleted_files (fst (get_file_list tree d))
                                                           (prior_of_rows (files d))))
                    (rename_rows (moved_files (fst (get_file_list tree d)) (prior_of_rows (files d)))
                       (files (snd (get_file_list tree d))))\<rparr>)) of
                 Inl e \<Rightarrow> None
               | Inr sent \<Rightarrow> Some (get_album_photo_counts
                    (detect_new (fst (get_file_list tree d)) (prior_of_rows (files d)))))),
      store = (snd (get_file_list tree d))
        \<lparr>albums := filter (\<lambda>a. name a \<in> set (map (\<lambda>e. album_key (path e))
                               (fst (get_file_list tree d)))) (albums d),
         files := filter (\<lambda>r. path r \<notin> set (deleted_files (fst (get_file_list tree d))
                                                           (prior_of_rows (files d))))
                    (rename_rows (moved_files (fst (get_file_list tree d)) (prior_of_rows (files d)))
                       (files (snd (get_file_list tree d))))\<rparr>\<rparr>"
proof -
  have ld: "load_prior_state (initialize_database d) = (Inr (prior_of_rows (files d)), d)"
    by (simp add: initialize_database_nofault[OF nf] load_prior_state_nofault[OF nf])
  have pne: "prior_of_rows (files d) \<noteq> []" using ne by (simp add: prior_of_rows_empty)
  have g: "get_file_list tree d = (fst (get_file_list tree d), snd (get_file_list tree d))"
    by simp
  have f2: "faults (snd (get_file_list tree d)) = []"
    and a2: "albums (snd (get_file_list tree d)) = albums d"
    using process_tasks_nofault[OF nf, of "os_walk tree"] by (simp_all add: get_file_list_def)
  show ?thesis using main_after_scan[OF ld pne g f2, of manage] unfolding a2 .
qed

lemma fold_update_keys:
  "fst ` set (fold (\<lambda>r. AList.update (f r) (g r)) rows acc) = f ` set rows \<union> fst ` set acc"
  by (induction rows arbitrary: acc) (auto simp: AList.dom_update)

lemma prior_of_rows_keys: "fst ` set (prior_of_rows rows) = path ` set rows"
  by (simp add: prior_of_rows_def fold_update_keys)

lemma fold_update_map_of:
  "map_of (fold (\<lambda>r. AList.update (f r) (g r)) rows acc)
   = map_of (rev (map (\<lambda>r. (f r, g r)) rows) @ acc)"
proof (induction rows arbitrary: acc)
  case Nil
  then show ?case by simp
next
  case (Cons r rows)
  have "map_of (fold (\<lambda>r. AList.update (f r) (g r)) rows (AList.update (f r) (g r) acc))
        = map_of (rev (map (\<lambda>r. (f r, g r)) rows) @ AList.update (f r) (g r) acc)"
    by (rule Cons.IH)
  also have "\<dots> = map_of (rev (map (\<lambda>r. (f r, g r)) rows) @ (f r, g r) # acc)"
    by (simp add: map_of_append AList.update_conv')
  finally show ?case by simp
qed


lemma process_tasks_skip:
  "faults d = [] \<Longrightarrow> distinct (map (\<lambda>tk. relpath (fst tk)) tks) \<Longrightarrow>
   (comps, t, None) \<in> set tks \<Longrightarrow>
   filter (\<lambda>x. path x = relpath comps) (files d) = r # rs \<Longrightarrow> timestamp r \<noteq> t \<Longrightarrow>
   relpath comps \<notin> path ` set (fst (process_tasks tks d))"
proof (induction tks arbitrary: d)
  case Nil
  then show ?case by simp
next
  case (Cons tk tks)
  show ?case
  proof (cases "tk = (comps, t, None)")
    case True
    have "process_file tk d = (None, d)"
      using Cons.prems(1,4,5) True by (simp add: process_file_nofault)
    then have "fst (process_tasks (tk # tks) d) = fst (process_tasks tks d)" by simp
    moreover have "relpath comps \<notin> (\<lambda>tk. relpath (fst tk)) ` set tks"
      using Cons.prems(2) True by auto
    ultimately show ?thesis using process_tasks_paths[of tks d] by auto
  next
    case False
    then have mem: "(comps, t, None) \<in> set tks" using Cons.prems(3) by simp
    then have ne: "relpath (fst tk) \<noteq> relpath comps"
      using Cons.prems(2) by (auto simp: image_iff)
    obtain r' d1 where p: "process_file tk d = (r', d1)" by (cases "process_file tk d")
    have f1: "faults d1 = []" using process_file_nofault_faults[OF Cons.prems(1), of tk] p by simp
    have fl: "filter (\<lambda>x. path x = relpath comps) (files d1) = r # rs"
      using process_file_effect[OF p] Cons.prems(4) ne by auto
    have d: "distinct (map (\<lambda>tk. relpath (fst tk)) tks)" using Cons.prems(2) by simp
    note ih = Cons.IH[OF f1 d mem fl Cons.prems(5)]
    show ?thesis
    proof (cases r')
      case None
      then show ?thesis using p ih by simp
    next
      case (Some e)
      have "path e = relpath (fst tk)" using process_file_entry p Some by blast
      then show ?thesis using p Some ih ne by (auto split: prod.splits)
    qed
  qed
qed

subsection \<open>Failing statements\<close>


















subsection \<open>A store in step with the tree\<close>

lemma update_fresh: "k \<notin> fst ` set al \<Longrightarrow> AList.update k v al = al @ [(k, v)]"
  by (induction al) auto

lemma fold_update_distinct:
  "distinct (map f rows) \<Longrightarrow> f ` set rows \<inter> fst ` set acc = {} \<Longrightarrow>
   fold (\<lambda>r. AList.update (f r) (g r)) rows acc = acc @ map (\<lambda>r. (f r, g r)) rows"
proof (induction rows arbitrary: acc)
  case Nil
  then show ?case by simp
next
  case (Cons r rows)
  have fr: "f r \<notin> fst ` set acc" using Cons.prems(2) by auto
  have u: "AList.update (f r) (g r) acc = acc @ [(f r, g r)]" by (rule update_fresh[OF fr])
  have d: "distinct (map f rows)" using Cons.prems(1) by simp
  have i: "f ` set rows \<inter> fst ` set (acc @ [(f r, g r)]) = {}"
    using Cons.prems by auto
  show ?case using Cons.IH[OF d i] u by simp
qed

lemma prior_of_rows_distinct:
  "distinct (map path rows) \<Longrightarrow>
   prior_of_rows rows = map (\<lambda>r. (path r, checksum r, timestamp r)) rows"
  using fold_update_distinct[of path rows "[]" "\<lambda>r. (checksum r, timestamp r)"]
  by (simp add: prior_of_rows_def)

lemma prior_checksums_distinct:
  "distinct (map (\<lambda>kv. fst (snd kv)) prior) \<Longrightarrow>
   prior_checksums prior = map (\<lambda>kv. (fst (snd kv), fst kv)) prior"
  using fold_update_distinct[of "\<lambda>kv. fst (snd kv)" prior "[]" fst]
  by (simp add: prior_checksums_def)

lemma filter_distinct_key:
  "distinct (map f xs) \<Longrightarrow> x \<in> set xs \<Longrightarrow> filter (\<lambda>y. f y = f x) xs = [x]"
proof (induction xs)
  case Nil
  then show ?case by simp
next
  case (Cons a xs)
  show ?case
  proof (cases "a = x")
    case True
    have "f x \<notin> f ` set xs" using Cons.prems(1) True by simp
    then have "filter (\<lambda>y. f y = f x) xs = []"
      unfolding filter_empty_conv by (metis imageI)
    then show ?thesis using True by simp
  next
    case False
    then have m: "x \<in> set xs" using Cons.prems(2) by simp
    have "f a \<noteq> f x" using Cons.prems(1) m by (metis distinct.simps(2) imageI list.simps(9) set_map)
    then show ?thesis using Cons.IH m Cons.prems(1) by simp
  qed
qed

lemma process_tasks_cached:
  assumes nf: "faults d = []" and dp: "distinct (map path (files d))"
  shows "(\<lambda>tk. (relpath (fst tk), fst (snd tk))) ` set tks
           \<subseteq> (\<lambda>r. (path r, timestamp r)) ` set (files d) \<Longrightarrow>
         snd (process_tasks tks d) = d \<and> set (fst (process_tasks tks d)) \<subseteq> set (files d)
         \<and> map path (fst (process_tasks tks d)) = map (\<lambda>tk. relpath (fst tk)) tks"
proof (induction tks)
  case Nil
  then show ?case by simp
next
  case (Cons tk tks)
  obtain comps t dg where tk: "tk = (comps, t, dg)" by (cases tk)
  have "(relpath comps, t) \<in> (\<lambda>r. (path r, timestamp r)) ` set (files d)"
    using Cons.prems tk by auto
  then obtain r where r: "r \<in> set (files d)" "path r = relpath comps" "timestamp r = t"
    by auto
  have "filter (\<lambda>y. path y = path r) (files d) = [r]" by (rule filter_distinct_key[OF dp r(1)])
  then have fl: "filter (\<lambda>y. path y = relpath comps) (files d) = [r]" using r(2) by simp
  have "\<lparr>path = relpath comps, checksum = checksum r, timestamp = t\<rparr> = r"
    using r(2,3) by simp
  then have p: "process_file tk d = (Some r, d)"
    using nf fl r(3) by (simp add: tk process_file_nofault)
  have ih: "snd (process_tasks tks d) = d \<and> set (fst (process_tasks tks d)) \<subseteq> set (files d)
         \<and> map path (fst (process_tasks tks d)) = map (\<lambda>tk. relpath (fst tk)) tks"
    using Cons.prems by (intro Cons.IH) auto
  show ?case using p ih r tk by (auto split: prod.splits)
qed

subsection \<open>The reverse index and the renaming of records\<close>

lemma fold_update_distinct_keys:
  "distinct (map fst acc) \<Longrightarrow> distinct (map fst (fold (\<lambda>r. AList.update (f r) (g r)) rows acc))"
  by (induction rows arbitrary: acc) (simp_all add: AList.distinct_update)

lemma prior_of_rows_distinct_keys: "distinct (map fst (prior_of_rows rows))"
  by (simp add: prior_of_rows_def fold_update_distinct_keys)

lemma prior_of_rows_mem:
  assumes "(p, c, t) \<in> set (prior_of_rows rows)"
  shows "\<lparr>path = p, checksum = c, timestamp = t\<rparr> \<in> set rows"
proof -
  have "map_of (prior_of_rows rows) p = Some (c, t)"
    using assms prior_of_rows_distinct_keys by (rule_tac map_of_is_SomeI)
  then have "map_of (rev (map (\<lambda>r. (path r, checksum r, timestamp r)) rows)) p = Some (c, t)"
    using fold_update_map_of[of path "\<lambda>r. (checksum r, timestamp r)" rows "[]"]
    by (simp add: prior_of_rows_def)
  then have "(p, c, t) \<in> set (map (\<lambda>r. (path r, checksum r, timestamp r)) rows)"
    using map_of_SomeD by fastforce
  then obtain r where r: "r \<in> set rows" "path r = p" "checksum r = c" "timestamp r = t"
    by auto
  then have "r = \<lparr>path = p, checksum = c, timestamp = t\<rparr>" by simp
  then show ?thesis using r(1) by simp
qed

lemma prior_checksums_map_of:
  "map_of (prior_checksums prior) = map_of (rev (map (\<lambda>kv. (fst (snd kv), fst kv)) prior))"
  using fold_update_map_of[of "\<lambda>kv. fst (snd kv)" fst prior "[]"]
  by (simp add: prior_checksums_def)

lemma prior_checksums_Some:
  assumes "map_of (prior_checksums prior) c = Some p"
  shows "\<exists>t. (p, c, t) \<in> set prior"
proof -
  have "(c, p) \<in> set (map (\<lambda>kv. (fst (snd kv), fst kv)) prior)"
    using assms map_of_SomeD unfolding prior_checksums_map_of by fastforce
  then obtain kv where "kv \<in> set prior" "fst (snd kv) = c" "fst kv = p" by auto
  then have "(p, c, snd (snd kv)) \<in> set prior" by (metis prod.collapse)
  then show ?thesis by blast
qed

lemma prior_checksums_total:
  assumes "(p, c, t) \<in> set prior"
  shows "\<exists>p'. map_of (prior_checksums prior) c = Some p'"
proof -
  have "(c, p) \<in> set (rev (map (\<lambda>kv. (fst (snd kv), fst kv)) prior))"
    using assms by force
  then show ?thesis unfolding prior_checksums_map_of by (rule weak_map_of_SomeI)
qed

lemma rename_rows_Cons: "rename_rows (m # ms) F = rename_rows ms (map (rename_row m) F)"
  by (simp add: rename_rows_def)

lemma rename_rows_keeps:
  "r \<in> set F \<Longrightarrow> \<forall>m\<in>set ms. old_path m \<noteq> path r \<Longrightarrow> r \<in> set (rename_rows ms F)"
proof (induction ms arbitrary: F)
  case Nil
  then show ?case by (simp add: rename_rows_def)
next
  case (Cons m ms)
  have "old_path m \<noteq> path r" using Cons.prems(2) by simp
  then have "rename_row m r = r" by (auto simp: rename_row_def)
  then have "r \<in> set (map (rename_row m) F)" using Cons.prems(1) by force
  then show ?case using Cons.IH Cons.prems(2) by (simp add: rename_rows_Cons)
qed

lemma rename_rows_moves:
  "r \<in> set F \<Longrightarrow> path r = old \<Longrightarrow> \<lparr>old_path = old, new_path = new\<rparr> \<in> set ms \<Longrightarrow>
   \<forall>m\<in>set ms. old_path m \<noteq> new \<Longrightarrow>
   \<forall>m\<in>set ms. old_path m = old \<longrightarrow> new_path m = new \<Longrightarrow>
   r\<lparr>path := new\<rparr> \<in> set (rename_rows ms F)"
proof (induction ms arbitrary: F)
  case Nil
  then show ?case by simp
next
  case (Cons m ms)
  show ?case
  proof (cases "old_path m = old")
    case True
    then have "new_path m = new" using Cons.prems(5) by simp
    then have "rename_row m r = r\<lparr>path := new\<rparr>"
      using True Cons.prems(2) by (simp add: rename_row_def)
    then have "r\<lparr>path := new\<rparr> \<in> set (map (rename_row m) F)"
      using Cons.prems(1) by force
    moreover have "\<forall>m\<in>set ms. old_path m \<noteq> path (r\<lparr>path := new\<rparr>)"
      using Cons.prems(4) by simp
    ultimately show ?thesis using rename_rows_keeps by (simp add: rename_rows_Cons)
  next
    case False
    then have "rename_row m r = r" using Cons.prems(2) by (auto simp: rename_row_def)
    then have a: "r \<in> set (map (rename_row m) F)" using Cons.prems(1) by force
    have b: "\<lparr>old_path = old, new_path = new\<rparr> \<in> set ms" using Cons.prems(3) False by auto
    show ?thesis
      using Cons.IH[OF a Cons.prems(2) b] Cons.prems(4,5) by (simp add: rename_rows_Cons)
  qed
qed

subsection \<open>The watch root\<close>

text \<open>
  C8. When the watch root does not exist, \<^verbatim>\<open>main\<close> prints its message and calls
  \<^verbatim>\<open>exit(1)\<close> at once: the exit code is not zero, nothing has been scanned or classified,
  no alert is sent and the database is the one the run started with.
\<close>

theorem missing_root_aborts:
  "status (main None manage d) = Exited 1
   \<and> 0 < exit_code (status (main None manage d))
   \<and> store (main None manage d) = d
   \<and> files_new (main None manage d) = None
   \<and> files_moved (main None manage d) = None
   \<and> files_deleted (main None manage d) = None
   \<and> alerts (main None manage d) = None"
  by (simp add: main_def exit_code_def)

subsection \<open>Exclusions\<close>

text \<open>
  C7. The tasks of the scan are exactly the files of the tree that are not excluded by
  their name and lie under no excluded directory, at any depth; and every entry of the
  current state is the entry of such a file.
\<close>

theorem scan_excludes:
  "os_walk tree = filter allowed (tree_files tree)
   \<and> path ` set (fst (get_file_list tree d))
       \<subseteq> (\<lambda>tk. relpath (fst tk)) ` set (filter allowed (tree_files tree))"
  using process_tasks_paths[of "os_walk tree" d]
  by (simp add: os_walk_filter get_file_list_def)

subsection \<open>Albums\<close>

text \<open>
  C1, as the program has it. A pass after the first run in which no statement fails only
  removes albums: the albums that remain are those already in the table whose name is the
  key of an entry of the current state, in their order. No album is inserted by a pass.
\<close>

theorem albums_after_pass:
  assumes "faults d = []" "files d \<noteq> []"
  shows "albums (store (main (Some tree) manage d))
         = filter (\<lambda>a. name a \<in> set (map (\<lambda>e. album_key (path e)) (fst (get_file_list tree d))))
             (albums d)
       \<and> name ` set (albums (store (main (Some tree) manage d)))
         = name ` set (albums d) \<inter> (\<lambda>e. album_key (path e)) ` set (fst (get_file_list tree d))"
  by (auto simp: main_pass[OF assms])

theorem albums_after_pass_witness:
  "faults \<lparr>files = [\<lparr>path = ''A/1.jpg'', checksum = ''fp1'', timestamp = 1\<rparr>],
           albums = [\<lparr>name = ''A'', group_id = 1\<rparr>, \<lparr>name = ''Z'', group_id = 2\<rparr>],
           faults = [], groups = [], members = [],
       hash_order = []\<rparr> = []
   \<and> files \<lparr>files = [\<lparr>path = ''A/1.jpg'', checksum = ''fp1'', timestamp = 1\<rparr>],
           albums = [\<lparr>name = ''A'', group_id = 1\<rparr>, \<lparr>name = ''Z'', group_id = 2\<rparr>],
           faults = [], groups = [], members = [],
       hash_order = []\<rparr> \<noteq> []
   \<and> albums (store (main
        (Some [Dir ''A'' [File ''1.jpg'' 1 (Some ''fp1'')], Dir ''B'' [File ''2.jpg'' 2 (Some ''fp2'')]])
        id
        \<lparr>files = [\<lparr>path = ''A/1.jpg'', checksum = ''fp1'', timestamp = 1\<rparr>],
         albums = [\<lparr>name = ''A'', group_id = 1\<rparr>, \<lparr>name = ''Z'', group_id = 2\<rparr>],
         faults = [], groups = [], members = [],
       hash_order = []\<rparr>))
     = [\<lparr>name = ''A'', group_id = 1\<rparr>]"
proof -
  let ?d = "\<lparr>files = [\<lparr>path = ''A/1.jpg'', checksum = ''fp1'', timestamp = 1\<rparr>],
            albums = [\<lparr>name = ''A'', group_id = 1\<rparr>, \<lparr>name = ''Z'', group_id = 2\<rparr>],
            faults = [], groups = [], members = [],
       hash_order = []\<rparr>"
  let ?t = "[Dir ''A'' [File ''1.jpg'' 1 (Some ''fp1'')], Dir ''B'' [File ''2.jpg'' 2 (Some ''fp2'')]]"
  have h1: "faults ?d = []" by simp
  have h2: "files ?d \<noteq> []" by simp
  have "albums (store (main (Some ?t) id ?d))
        = filter (\<lambda>a. name a \<in> set (map (\<lambda>e. album_key (path e)) (fst (get_file_list ?t ?d))))
            (albums ?d)"
    by (rule albums_after_pass[OF h1 h2, THEN conjunct1])
  also have "\<dots> = [\<lparr>name = ''A'', group_id = 1\<rparr>]" by code_simp
  finally show ?thesis using h1 h2 by blast
qed

text \<open>
  C1 as stated fails: a file in a new directory is recorded, but the pass inserts no album
  for its key.
\<close>

theorem new_directory_has_no_album:
  "map name (albums (store (main
      (Some [Dir ''A'' [File ''1.jpg'' 1 (Some ''fp1'')], Dir ''B'' [File ''2.jpg'' 2 (Some ''fp2'')]]) id
      \<lparr>files = [\<lparr>path = ''A/1.jpg'', checksum = ''fp1'', timestamp = 1\<rparr>],
       albums = [\<lparr>name = ''A'', group_id = 1\<rparr>], faults = [], groups = [], members = [],
       hash_order = []\<rparr>))) = [''A'']
   \<and> map (\<lambda>r. album_key (path r)) (files (store (main
      (Some [Dir ''A'' [File ''1.jpg'' 1 (Some ''fp1'')], Dir ''B'' [File ''2.jpg'' 2 (Some ''fp2'')]]) id
      \<lparr>files = [\<lparr>path = ''A/1.jpg'', checksum = ''fp1'', timestamp = 1\<rparr>],
       albums = [\<lparr>name = ''A'', group_id = 1\<rparr>], faults = [], groups = [], members = [],
       hash_order = []\<rparr>))) = [''A'', ''B'']"
  by code_simp

subsection \<open>The first run\<close>




subsection \<open>A file that cannot be processed\<close>



subsection \<open>One record for each path\<close>

text \<open>
  C3 on the code. The table holds one record of \<^verbatim>\<open>a.jpg\<close>; the file has a new
  modification time; \<^verbatim>\<open>process_file\<close> inserts a second record of the same path, since
  the table has no key on \<^verbatim>\<open>path\<close> that \<^verbatim>\<open>INSERT OR REPLACE\<close> could replace on.
\<close>

theorem upsert_duplicates_path:
  "one_record_per_path
     \<lparr>files = [\<lparr>path = ''a.jpg'', checksum = ''fp1'', timestamp = 1\<rparr>], albums = [], faults = [], groups = [], members = [],
       hash_order = []\<rparr>
   \<and> files (snd (process_file ([''a.jpg''], 2, Some ''fp2'')
         \<lparr>files = [\<lparr>path = ''a.jpg'', checksum = ''fp1'', timestamp = 1\<rparr>], albums = [],
          faults = [], groups = [], members = [],
       hash_order = []\<rparr>))
       = [\<lparr>path = ''a.jpg'', checksum = ''fp1'', timestamp = 1\<rparr>,
          \<lparr>path = ''a.jpg'', checksum = ''fp2'', timestamp = 2\<rparr>]
   \<and> \<not> one_record_per_path (snd (process_file ([''a.jpg''], 2, Some ''fp2'')
         \<lparr>files = [\<lparr>path = ''a.jpg'', checksum = ''fp1'', timestamp = 1\<rparr>], albums = [],
          faults = [], groups = [], members = [],
       hash_order = []\<rparr>))"
  by code_simp

text \<open>
  C5 on the code. The table holds one record of \<^verbatim>\<open>a.jpg\<close> and the file has a new
  modification time. The first pass over the file appends a record instead of replacing
  the old one. In the next pass the path is present with the scanned modification time,
  yet \<^verbatim>\<open>process_file\<close> reads the first record only, hashes the file again and writes a
  third record.
\<close>

theorem rehash_despite_matching_record:
  "snd (process_file ([''a.jpg''], 2, Some ''fp2'')
     \<lparr>files = [\<lparr>path = ''a.jpg'', checksum = ''fp1'', timestamp = 1\<rparr>], albums = [],
      faults = [], groups = [], members = [],
       hash_order = []\<rparr>)
   = \<lparr>files = [\<lparr>path = ''a.jpg'', checksum = ''fp1'', timestamp = 1\<rparr>,
               \<lparr>path = ''a.jpg'', checksum = ''fp2'', timestamp = 2\<rparr>], albums = [],
      faults = [], groups = [], members = [],
       hash_order = []\<rparr>
   \<and> process_file ([''a.jpg''], 2, Some ''fp2'')
       (snd (process_file ([''a.jpg''], 2, Some ''fp2'')
          \<lparr>files = [\<lparr>path = ''a.jpg'', checksum = ''fp1'', timestamp = 1\<rparr>], albums = [],
           faults = [], groups = [], members = [],
       hash_order = []\<rparr>))
   = (Some \<lparr>path = ''a.jpg'', checksum = ''fp2'', timestamp = 2\<rparr>,
      \<lparr>files = [\<lparr>path = ''a.jpg'', checksum = ''fp1'', timestamp = 1\<rparr>,
                \<lparr>path = ''a.jpg'', checksum = ''fp2'', timestamp = 2\<rparr>,
                \<lparr>path = ''a.jpg'', checksum = ''fp2'', timestamp = 2\<rparr>], albums = [],
       faults = [], groups = [], members = [],
       hash_order = []\<rparr>)"
  by code_simp

subsection \<open>Store errors\<close>




subsection \<open>A second run over an unchanged tree\<close>

text \<open>
  C4, as the program has it. When the table holds exactly one record for each scanned
  file, with the modification time of the file, no two records have the same checksum and
  no statement fails, a pass finds nothing new, moved or deleted, sends no alert and
  leaves the table of files as it was.
\<close>

theorem unchanged_pass_is_idle:
  assumes nf: "faults d = []" and ne: "files d \<noteq> []"
    and dp: "one_record_per_path d"
    and dc: "distinct (map checksum (files d))"
    and sync: "(\<lambda>r. (path r, timestamp r)) ` set (files d)
               = (\<lambda>tk. (relpath (fst tk), fst (snd tk))) ` set (os_walk tree)"
  shows "status (main (Some tree) manage d) = Returned
       \<and> files_new (main (Some tree) manage d) = Some []
       \<and> files_moved (main (Some tree) manage d) = Some []
       \<and> files_deleted (main (Some tree) manage d) = Some []
       \<and> alerts (main (Some tree) manage d) = None
       \<and> files (store (main (Some tree) manage d)) = files d"
proof -
  let ?rows = "files d"
  let ?cur = "fst (get_file_list tree d)"
  let ?prior = "prior_of_rows ?rows"
  have dp': "distinct (map path ?rows)" using dp by (simp add: one_record_per_path_def)
  have sub: "(\<lambda>tk. (relpath (fst tk), fst (snd tk))) ` set (os_walk tree)
             \<subseteq> (\<lambda>r. (path r, timestamp r)) ` set ?rows" using sync by simp
  note pc = process_tasks_cached[OF nf dp' sub]
  have d2: "snd (get_file_list tree d) = d" using pc by (simp add: get_file_list_def)
  have cs: "set ?cur \<subseteq> set ?rows" using pc by (simp add: get_file_list_def)
  have cp: "map path ?cur = map (\<lambda>tk. relpath (fst tk)) (os_walk tree)"
    using pc by (simp add: get_file_list_def)
  have pr: "?prior = map (\<lambda>r. (path r, checksum r, timestamp r)) ?rows"
    by (rule prior_of_rows_distinct[OF dp'])
  have dk: "distinct (map fst ?prior)" using dp' by (simp add: pr comp_def)
  have "map (\<lambda>kv. fst (snd kv)) ?prior = map checksum ?rows" by (simp add: pr comp_def)
  then have "distinct (map (\<lambda>kv. fst (snd kv)) ?prior)" using dc by simp
  then have pcs: "prior_checksums ?prior = map (\<lambda>r. (checksum r, path r)) ?rows"
    by (simp add: prior_checksums_distinct pr comp_def)
  have dck: "distinct (map fst (map (\<lambda>r. (checksum r, path r)) ?rows))"
    using dc by (simp add: comp_def)
  have new: "detect_new ?cur ?prior = []"
  proof -
    have "\<not> is_new ?prior e" if "e \<in> set ?cur" for e
    proof -
      have "e \<in> set ?rows" using that cs by auto
      then have "(path e, checksum e, timestamp e) \<in> set ?prior" by (auto simp: pr)
      then have "map_of ?prior (path e) = Some (checksum e, timestamp e)"
        using dk by (rule_tac map_of_is_SomeI)
      then show ?thesis by (simp add: is_new_def)
    qed
    then show ?thesis by (simp add: detect_new_def filter_empty_conv)
  qed
  have mov: "moved_files ?cur ?prior = []"
  proof -
    have "moved_of (prior_checksums ?prior) e = []" if "e \<in> set ?cur" for e
    proof -
      have "e \<in> set ?rows" using that cs by auto
      then have "(checksum e, path e) \<in> set (map (\<lambda>r. (checksum r, path r)) ?rows)" by auto
      then have "map_of (prior_checksums ?prior) (checksum e) = Some (path e)"
        unfolding pcs using dck by (rule_tac map_of_is_SomeI)
      then show ?thesis by (simp add: moved_of_def)
    qed
    then show ?thesis by (simp add: moved_files_def)
  qed
  have del: "deleted_files ?cur ?prior = []"
  proof -
    have "path ` set ?rows = (\<lambda>tk. relpath (fst tk)) ` set (os_walk tree)"
    proof -
      have "fst ` (\<lambda>r. (path r, timestamp r)) ` set ?rows
            = fst ` (\<lambda>tk. (relpath (fst tk), fst (snd tk))) ` set (os_walk tree)"
        using sync by simp
      then show ?thesis by (simp add: image_image)
    qed
    moreover have "set (map path ?cur) = (\<lambda>tk. relpath (fst tk)) ` set (os_walk tree)"
      unfolding cp by simp
    moreover have "set (map fst ?prior) = path ` set ?rows" by (simp add: pr image_image)
    ultimately have "set (map fst ?prior) \<subseteq> set (map path ?cur)" by simp
    then show ?thesis unfolding deleted_files_def filter_empty_conv by blast
  qed
  show ?thesis
    unfolding main_pass[OF nf ne] new mov del d2 by (simp add: rename_rows_def)
qed

text \<open>The store that a first run leaves is in step with the tree: a second run is idle.\<close>

theorem unchanged_pass_is_idle_witness:
  "files_new (main (Some [Dir ''A'' [File ''1.jpg'' 1 (Some ''fp1'')], File ''2.jpg'' 2 (Some ''fp2'')]) id
      (store (main (Some [Dir ''A'' [File ''1.jpg'' 1 (Some ''fp1'')], File ''2.jpg'' 2 (Some ''fp2'')]) id
         \<lparr>files = [], albums = [], faults = [], groups = [], members = [],
       hash_order = []\<rparr>))) = Some []
   \<and> files_moved (main (Some [Dir ''A'' [File ''1.jpg'' 1 (Some ''fp1'')], File ''2.jpg'' 2 (Some ''fp2'')]) id
      (store (main (Some [Dir ''A'' [File ''1.jpg'' 1 (Some ''fp1'')], File ''2.jpg'' 2 (Some ''fp2'')]) id
         \<lparr>files = [], albums = [], faults = [], groups = [], members = [],
       hash_order = []\<rparr>))) = Some []
   \<and> files_deleted (main (Some [Dir ''A'' [File ''1.jpg'' 1 (Some ''fp1'')], File ''2.jpg'' 2 (Some ''fp2'')]) id
      (store (main (Some [Dir ''A'' [File ''1.jpg'' 1 (Some ''fp1'')], File ''2.jpg'' 2 (Some ''fp2'')]) id
         \<lparr>files = [], albums = [], faults = [], groups = [], members = [],
       hash_order = []\<rparr>))) = Some []
   \<and> files (store (main (Some [Dir ''A'' [File ''1.jpg'' 1 (Some ''fp1'')], File ''2.jpg'' 2 (Some ''fp2'')]) id
      (store (main (Some [Dir ''A'' [File ''1.jpg'' 1 (Some ''fp1'')], File ''2.jpg'' 2 (Some ''fp2'')]) id
         \<lparr>files = [], albums = [], faults = [], groups = [], members = [],
       hash_order = []\<rparr>))))
     = [\<lparr>path = ''2.jpg'', checksum = ''fp2'', timestamp = 2\<rparr>,
        \<lparr>path = ''A/1.jpg'', checksum = ''fp1'', timestamp = 1\<rparr>]"
proof -
  let ?t = "[Dir ''A'' [File ''1.jpg'' 1 (Some ''fp1'')], File ''2.jpg'' 2 (Some ''fp2'')]"
  let ?d = "store (main (Some ?t) id \<lparr>files = [], albums = [], faults = [], groups = [], members = [],
       hash_order = []\<rparr>)"
  have f: "files ?d = [\<lparr>path = ''2.jpg'', checksum = ''fp2'', timestamp = 2\<rparr>,
                      \<lparr>path = ''A/1.jpg'', checksum = ''fp1'', timestamp = 1\<rparr>]"
    by code_simp
  have h1: "faults ?d = []" by code_simp
  have h2: "files ?d \<noteq> []" unfolding f by simp
  have h3: "one_record_per_path ?d" unfolding one_record_per_path_def f by simp
  have h4: "distinct (map checksum (files ?d))" unfolding f by simp
  have h5: "(\<lambda>r. (path r, timestamp r)) ` set (files ?d)
            = (\<lambda>tk. (relpath (fst tk), fst (snd tk))) ` set (os_walk ?t)"
    by code_simp
  note w = unchanged_pass_is_idle[OF h1 h2 h3 h4 h5, of id]
  show ?thesis using w f by simp
qed

text \<open>
  C4 as stated fails. Two files with the same content: the first run records both, the
  second run (no change in between) reports the first as moved from the second and
  renames the record of the second, and the third run reports the second as new and as
  moved.
\<close>

theorem same_content_is_moved_again:
  "files_moved (main (Some [File ''a'' 1 (Some ''x''), File ''b'' 2 (Some ''x'')]) id
      (store (main (Some [File ''a'' 1 (Some ''x''), File ''b'' 2 (Some ''x'')]) id
         \<lparr>files = [], albums = [], faults = [], groups = [], members = [],
       hash_order = []\<rparr>)))
     = Some [\<lparr>old_path = ''b'', new_path = ''a''\<rparr>]
   \<and> files (store (main (Some [File ''a'' 1 (Some ''x''), File ''b'' 2 (Some ''x'')]) id
      (store (main (Some [File ''a'' 1 (Some ''x''), File ''b'' 2 (Some ''x'')]) id
         \<lparr>files = [], albums = [], faults = [], groups = [], members = [],
       hash_order = []\<rparr>))))
     = [\<lparr>path = ''a'', checksum = ''x'', timestamp = 1\<rparr>,
        \<lparr>path = ''a'', checksum = ''x'', timestamp = 2\<rparr>]
   \<and> files_new (main (Some [File ''a'' 1 (Some ''x''), File ''b'' 2 (Some ''x'')]) id
      (store (main (Some [File ''a'' 1 (Some ''x''), File ''b'' 2 (Some ''x'')]) id
        (store (main (Some [File ''a'' 1 (Some ''x''), File ''b'' 2 (Some ''x'')]) id
           \<lparr>files = [], albums = [], faults = [], groups = [], members = [],
       hash_order = []\<rparr>)))))
     = Some [\<lparr>path = ''b'', checksum = ''x'', timestamp = 2\<rparr>]
   \<and> files_moved (main (Some [File ''a'' 1 (Some ''x''), File ''b'' 2 (Some ''x'')]) id
      (store (main (Some [File ''a'' 1 (Some ''x''), File ''b'' 2 (Some ''x'')]) id
        (store (main (Some [File ''a'' 1 (Some ''x''), File ''b'' 2 (Some ''x'')]) id
           \<lparr>files = [], albums = [], faults = [], groups = [], members = [],
       hash_order = []\<rparr>)))))
     = Some [\<lparr>old_path = ''a'', new_path = ''b''\<rparr>]"
  by code_simp

subsection \<open>A renamed file\<close>

text \<open>
  C2, as the program has it. A current entry \<open>e\<close> whose checksum is the checksum of exactly
  one prior record, at the path \<open>old\<close> with the timestamp \<open>t\<close>, whose own path has no
  record, and which is the only current entry with that checksum, while nothing is
  scanned at \<open>old\<close> any more: in a pass in which no statement fails, the move from \<open>old\<close>
  to the path of \<open>e\<close> is in the moved list, \<open>e\<close> is also in the new list (its path is not
  in the prior state) and \<open>old\<close> in the deleted list, and the table of files then holds a
  record with the new path, the checksum and the timestamp \<open>t\<close> of the old record. The
  lists are computed and the table is changed before \<^verbatim>\<open>sendalerts\<close> is called, so this
  holds however the run ends.
\<close>

theorem rename_is_moved:
  assumes nf: "faults d = []"
    and h2: "filter (\<lambda>kv. fst (snd kv) = checksum e) (prior_of_rows (files d))
             = [(old, checksum e, t)]"
    and h3: "filter (\<lambda>x. checksum x = checksum e) (fst (get_file_list tree d)) = [e]"
    and h4: "path e \<notin> path ` set (files d)"
    and h5: "old \<notin> path ` set (fst (get_file_list tree d))"
  shows "(\<exists>ms. files_moved (main (Some tree) manage d) = Some ms
              \<and> \<lparr>old_path = old, new_path = path e\<rparr> \<in> set ms)
       \<and> (\<exists>ns. files_new (main (Some tree) manage d) = Some ns \<and> e \<in> set ns)
       \<and> (\<exists>ps. files_deleted (main (Some tree) manage d) = Some ps \<and> old \<in> set ps)
       \<and> \<lparr>path = path e, checksum = checksum e, timestamp = t\<rparr>
           \<in> set (files (store (main (Some tree) manage d)))"
proof -
  let ?rows = "files d"
  let ?prior = "prior_of_rows ?rows"
  let ?cur = "fst (get_file_list tree d)"
  let ?d2 = "snd (get_file_list tree d)"
  let ?pc = "prior_checksums ?prior"
  let ?fp = "checksum e"
  let ?m0 = "\<lparr>old_path = old, new_path = path e\<rparr>"
  let ?row0 = "\<lparr>path = old, checksum = ?fp, timestamp = t\<rparr>"
  have "(old, ?fp, t) \<in> set (filter (\<lambda>kv. fst (snd kv) = ?fp) ?prior)" unfolding h2 by simp
  then have op: "(old, ?fp, t) \<in> set ?prior" by simp
  have r0: "?row0 \<in> set ?rows" by (rule prior_of_rows_mem[OF op])
  then have ne: "?rows \<noteq> []" by auto
  have oldin: "old \<in> path ` set ?rows" using r0 by force
  then have one: "old \<noteq> path e" using h4 by metis
  have "e \<in> set (filter (\<lambda>x. checksum x = ?fp) ?cur)" unfolding h3 by simp
  then have ec: "e \<in> set ?cur" by simp
  have uniq: "p = old" if "(p, ?fp, t') \<in> set ?prior" for p t'
  proof -
    have "(p, ?fp, t') \<in> set (filter (\<lambda>kv. fst (snd kv) = ?fp) ?prior)" using that by simp
    then show ?thesis unfolding h2 by simp
  qed
  have pcfp: "map_of ?pc ?fp = Some old"
  proof -
    obtain p' where p': "map_of ?pc ?fp = Some p'" using prior_checksums_total[OF op] by blast
    then obtain t' where "(p', ?fp, t') \<in> set ?prior" using prior_checksums_Some by blast
    then have "p' = old" by (rule uniq)
    then show ?thesis using p' by simp
  qed
  have m0: "?m0 \<in> set (moved_files ?cur ?prior)"
  proof -
    have "moved_of ?pc e = [?m0]" using pcfp one by (simp add: moved_of_def)
    then show ?thesis using ec by (force simp: moved_files_def)
  qed
  have mv: "old_path m \<noteq> path e \<and> (old_path m = old \<longrightarrow> new_path m = path e)"
    if mm: "m \<in> set (moved_files ?cur ?prior)" for m
  proof -
    obtain x where x: "x \<in> set ?cur" "m \<in> set (moved_of ?pc x)"
      using mm by (auto simp: moved_files_def)
    then have l: "map_of ?pc (checksum x) = Some (old_path m)" and np: "new_path m = path x"
      by (auto simp: moved_of_def split: option.splits if_splits)
    obtain t' where t': "(old_path m, checksum x, t') \<in> set ?prior"
      using prior_checksums_Some[OF l] by blast
    then have "old_path m \<in> fst ` set ?prior" by force
    then have "old_path m \<in> path ` set ?rows" by (simp add: prior_of_rows_keys)
    then have a: "old_path m \<noteq> path e" using h4 by metis
    have b: "new_path m = path e" if o: "old_path m = old"
    proof -
      have "map_of ?prior old = Some (checksum x, t')"
        using t' o prior_of_rows_distinct_keys by (rule_tac map_of_is_SomeI) auto
      moreover have "map_of ?prior old = Some (?fp, t)"
        using op prior_of_rows_distinct_keys by (rule_tac map_of_is_SomeI)
      ultimately have "checksum x = ?fp" by simp
      then have "x \<in> set (filter (\<lambda>x. checksum x = ?fp) ?cur)" using x(1) by simp
      then have "x = e" unfolding h3 by simp
      then show ?thesis using np by simp
    qed
    show ?thesis using a b by simp
  qed
  have new: "e \<in> set (detect_new ?cur ?prior)"
  proof -
    have "path e \<notin> fst ` set ?prior" using h4 by (simp add: prior_of_rows_keys)
    then have "map_of ?prior (path e) = None" by (simp add: map_of_eq_None_iff)
    then show ?thesis using ec by (simp add: detect_new_def is_new_def)
  qed
  have del: "old \<in> set (deleted_files ?cur ?prior)"
  proof -
    have "old \<in> set (map fst ?prior)" using op by force
    then show ?thesis using h5 by (simp add: deleted_files_def)
  qed
  have fin: "\<lparr>path = path e, checksum = ?fp, timestamp = t\<rparr>
             \<in> set (filter (\<lambda>r. path r \<notin> set (deleted_files ?cur ?prior))
                   (rename_rows (moved_files ?cur ?prior) (files ?d2)))"
  proof -
    obtain xs where "files ?d2 = ?rows @ xs"
      using process_tasks_nofault[OF nf, of "os_walk tree"] by (auto simp: get_file_list_def)
    then have "?row0 \<in> set (files ?d2)" using r0 by simp
    then have "?row0\<lparr>path := path e\<rparr> \<in> set (rename_rows (moved_files ?cur ?prior) (files ?d2))"
      using m0 mv by (intro rename_rows_moves[where old = old]) auto
    moreover have "path e \<notin> set (deleted_files ?cur ?prior)"
      using ec by (auto simp: deleted_files_def)
    ultimately show ?thesis by simp
  qed
  show ?thesis
    unfolding main_pass[OF nf ne] using m0 new del fin by simp
qed

theorem rename_is_moved_witness:
  "files_moved (main (Some [Dir ''B'' [File ''1.jpg'' 7 (Some ''fp1'')], File ''r.jpg'' 5 (Some ''fpr'')]) id
      \<lparr>files = [\<lparr>path = ''A/1.jpg'', checksum = ''fp1'', timestamp = 1\<rparr>,
                \<lparr>path = ''r.jpg'', checksum = ''fpr'', timestamp = 5\<rparr>],
       albums = [], faults = [], groups = [], members = [],
       hash_order = []\<rparr>)
     = Some [\<lparr>old_path = ''A/1.jpg'', new_path = ''B/1.jpg''\<rparr>]
   \<and> \<lparr>path = ''B/1.jpg'', checksum = ''fp1'', timestamp = 1\<rparr>
     \<in> set (files (store (main (Some [Dir ''B'' [File ''1.jpg'' 7 (Some ''fp1'')], File ''r.jpg'' 5 (Some ''fpr'')]) id
      \<lparr>files = [\<lparr>path = ''A/1.jpg'', checksum = ''fp1'', timestamp = 1\<rparr>,
                \<lparr>path = ''r.jpg'', checksum = ''fpr'', timestamp = 5\<rparr>],
       albums = [], faults = [], groups = [], members = [],
       hash_order = []\<rparr>)))"
proof -
  let ?d = "\<lparr>files = [\<lparr>path = ''A/1.jpg'', checksum = ''fp1'', timestamp = 1\<rparr>,
                      \<lparr>path = ''r.jpg'', checksum = ''fpr'', timestamp = 5\<rparr>],
            albums = [], faults = [], groups = [], members = [],
       hash_order = []\<rparr>"
  let ?t = "[Dir ''B'' [File ''1.jpg'' 7 (Some ''fp1'')], File ''r.jpg'' 5 (Some ''fpr'')]"
  let ?e = "\<lparr>path = ''B/1.jpg'', checksum = ''fp1'', timestamp = 7\<rparr>"
  have h1: "faults ?d = []" by simp
  have h2: "filter (\<lambda>kv. fst (snd kv) = checksum ?e) (prior_of_rows (files ?d))
            = [(''A/1.jpg'', checksum ?e, 1)]" by code_simp
  have h3: "filter (\<lambda>x. checksum x = checksum ?e) (fst (get_file_list ?t ?d)) = [?e]"
    by code_simp
  have h4: "path ?e \<notin> path ` set (files ?d)" by code_simp
  have h5: "''A/1.jpg'' \<notin> path ` set (fst (get_file_list ?t ?d))" by code_simp
  note w = rename_is_moved[OF h1 h2 h3 h4 h5, of id]
  have m: "files_moved (main (Some ?t) id ?d)
           = Some [\<lparr>old_path = ''A/1.jpg'', new_path = ''B/1.jpg''\<rparr>]" by code_simp
  show ?thesis using w m by simp
qed

text \<open>
  C2 as stated fails: the renamed file is in the moved list and also in the new list, and
  its old path is in the deleted list.
\<close>

theorem rename_is_added_and_deleted:
  "files_moved (main (Some [Dir ''B'' [File ''1.jpg'' 1 (Some ''fp1'')]]) id
      \<lparr>files = [\<lparr>path = ''A/1.jpg'', checksum = ''fp1'', timestamp = 1\<rparr>],
       albums = [\<lparr>name = ''A'', group_id = 1\<rparr>], faults = [], groups = [], members = [],
       hash_order = []\<rparr>)
     = Some [\<lparr>old_path = ''A/1.jpg'', new_path = ''B/1.jpg''\<rparr>]
   \<and> files_new (main (Some [Dir ''B'' [File ''1.jpg'' 1 (Some ''fp1'')]]) id
      \<lparr>files = [\<lparr>path = ''A/1.jpg'', checksum = ''fp1'', timestamp = 1\<rparr>],
       albums = [\<lparr>name = ''A'', group_id = 1\<rparr>], faults = [], groups = [], members = [],
       hash_order = []\<rparr>)
     = Some [\<lparr>path = ''B/1.jpg'', checksum = ''fp1'', timestamp = 1\<rparr>]
   \<and> files_deleted (main (Some [Dir ''B'' [File ''1.jpg'' 1 (Some ''fp1'')]]) id
      \<lparr>files = [\<lparr>path = ''A/1.jpg'', checksum = ''fp1'', timestamp = 1\<rparr>],
       albums = [\<lparr>name = ''A'', group_id = 1\<rparr>], faults = [], groups = [], members = [],
       hash_order = []\<rparr>)
     = Some [''A/1.jpg'']"
  by code_simp

end
